theory Spec2Isabelle
  imports Complex_Main
begin

section \<open>Errors and values\<close>

text \<open>
  A JavaScript \<open>throw\<close> is a value of the type \<open>error\<close>: the two built-in errors the
  modelled code can raise, and the strings that \<open>tryValidateConfig\<close> throws itself.
  A function that can throw returns \<open>error + 'a\<close>, with \<open>Inl\<close> for the thrown value.
\<close>

datatype error = TypeError | URIError | Thrown string

text \<open>
  \<open>Array.prototype.forEach\<close> and \<open>Array.prototype.map\<close> with a callback that can throw:
  the first callback that throws ends the loop.
\<close>

fun forEach :: "('a \<Rightarrow> error + unit) \<Rightarrow> 'a list \<Rightarrow> error + unit" where
  "forEach f [] = Inr ()"
| "forEach f (x # xs) = (case f x of Inl e \<Rightarrow> Inl e | Inr _ \<Rightarrow> forEach f xs)"

fun mapE :: "('a \<Rightarrow> error + 'b) \<Rightarrow> 'a list \<Rightarrow> error + 'b list" where
  "mapE f [] = Inr []"
| "mapE f (x # xs) =
     (case f x of
        Inl e \<Rightarrow> Inl e
      | Inr y \<Rightarrow> (case mapE f xs of Inl e \<Rightarrow> Inl e | Inr ys \<Rightarrow> Inr (y # ys)))"

section \<open>Name cleaning\<close>

text \<open>
  \<^verbatim>\<open>function cleanConfigName(name) { return name.replace(/[\W_]+/g, "-"); }\<close>

  Without the \<open>u\<close> and \<open>i\<close> flags, \<open>\W\<close> is the complement of \<open>[A-Za-z0-9_]\<close>, so the class
  \<open>[\W_]\<close> is the complement of the ASCII letters and digits. A global replace scans from
  the left, and the greedy \<open>+\<close> takes the longest run at each match.
\<close>

definition alnum :: "char \<Rightarrow> bool" where
  "alnum c =
     (let n = (of_char c :: nat)
      in (48 \<le> n \<and> n \<le> 57) \<or> (65 \<le> n \<and> n \<le> 90) \<or> (97 \<le> n \<and> n \<le> 122))"

function cleanConfigName :: "string \<Rightarrow> string" where
  "cleanConfigName [] = []"
| "cleanConfigName (c # cs) =
     (if alnum c then c # cleanConfigName cs
      else CHR ''-'' # cleanConfigName (dropWhile (\<lambda>x. \<not> alnum x) cs))"
  by pat_completeness auto
termination
  by (relation "measure length") (auto simp: less_Suc_eq_le length_dropWhile_le)

section \<open>The tracker of running instances\<close>

text \<open>
  \<open>ConfigEntry\<close> keeps the fields its constructor stores. \<open>name\<close>, \<open>key\<close> and \<open>image\<close> may
  be absent from the parsed JSON (\<open>None\<close> is \<open>undefined\<close>). The limit is a JSON number,
  which the constructor stores as it is, an integer or not: the model takes the rational
  value of the number (a literal beyond the range of a double is left out). The repository holds two variants of \<open>app.js\<close>; the
  record has the fields of the larger one (\<open>src/app.js\<close> has no \<open>queryParamsToEnv\<close>, and
  the registry credentials \<open>auth\<close>, which are only handed to the container runtime, are
  left out).
\<close>

datatype allowFrom = SingleAddress string | AddressList "string list"

datatype json =
  JNull | JBool bool | JNum int | JStr string | JArr "json list" | JObj "(string \<times> json) list"

record ConfigEntry =
  name_raw :: "string option"
  key :: "string option"
  image :: "string option"
  queryParamsToEnv :: "string list"
  allowFrom :: allowFrom
  cmd :: "string list"
  createOptions :: "string \<rightharpoonup> json"
  limit :: rat

text \<open>
  The getter \<open>name\<close> calls \<open>cleanConfigName(this._name)\<close>; on an absent name the call
  \<open>undefined.replace\<close> throws a TypeError.
\<close>

definition name :: "ConfigEntry \<Rightarrow> error + string" where
  "name c = (case name_raw c of None \<Rightarrow> Inl TypeError | Some n \<Rightarrow> Inr (cleanConfigName n))"

type_synonym runningMap = "string \<rightharpoonup> string list"

text \<open>
  \<^verbatim>\<open>
  function tryTrackNewRunningInstance(config, instanceName) {
    if (runningMap.has(config.name)) {
      let alreadyRunning = runningMap.get(config.name);
      if (alreadyRunning.length >= config.limit) { return false; }
      alreadyRunning.push(instanceName);
    } else {
      runningMap.set(config.name, [instanceName]);
    }
    return true;
  }
  \<close>
  The global \<open>runningMap\<close> is passed in and returned.
\<close>

definition tryTrackNewRunningInstance ::
  "ConfigEntry \<Rightarrow> string \<Rightarrow> runningMap \<Rightarrow> error + (bool \<times> runningMap)" where
  "tryTrackNewRunningInstance config instanceName rm =
     (case name config of
        Inl e \<Rightarrow> Inl e
      | Inr n \<Rightarrow>
          (case rm n of
             Some alreadyRunning \<Rightarrow>
               if of_nat (length alreadyRunning) \<ge> limit config then Inr (False, rm)
               else Inr (True, rm(n \<mapsto> alreadyRunning @ [instanceName]))
           | None \<Rightarrow> Inr (True, rm(n \<mapsto> [instanceName]))))"

text \<open>
  \<open>Array.prototype.indexOf\<close>: the first index holding the element, or \<open>-1\<close>.
\<close>

fun indexOf :: "'a list \<Rightarrow> 'a \<Rightarrow> int" where
  "indexOf [] x = -1"
| "indexOf (y # ys) x =
     (if y = x then 0 else (let i = indexOf ys x in if i < 0 then -1 else i + 1))"

text \<open>
  \<open>Array.prototype.splice(start)\<close> with a single argument: a negative \<open>start\<close> counts from
  the end (\<open>max (len + start) 0\<close>), a positive one is capped at the length, and every
  element from there to the end is removed. The function returns what stays in the array.
\<close>

definition splice1 :: "'a list \<Rightarrow> int \<Rightarrow> 'a list" where
  "splice1 xs start =
     (let len = int (length xs);
          actualStart = (if start < 0 then max (len + start) 0 else min start len)
      in take (nat actualStart) xs)"

text \<open>
  \<^verbatim>\<open>
  function untrackRunningInstance(config, instanceName) {
    let alreadyRunning = runningMap.get(config.name);
    if (alreadyRunning && alreadyRunning.length) {
      alreadyRunning.splice(alreadyRunning.indexOf(instanceName));
    }
  }
  \<close>
\<close>

definition untrackRunningInstance ::
  "ConfigEntry \<Rightarrow> string \<Rightarrow> runningMap \<Rightarrow> error + runningMap" where
  "untrackRunningInstance config instanceName rm =
     (case name config of
        Inl e \<Rightarrow> Inl e
      | Inr n \<Rightarrow>
          (case rm n of
             Some alreadyRunning \<Rightarrow>
               if length alreadyRunning \<noteq> 0
               then Inr (rm(n \<mapsto> splice1 alreadyRunning (indexOf alreadyRunning instanceName)))
               else Inr rm
           | None \<Rightarrow> Inr rm))"

section \<open>Building the configuration\<close>

text \<open>
  The parsed JSON object handed to the constructor. Every field may be absent. The limit
  field is one of the falsy JSON values or a number, integer or not; a truthy value of
  another type is not a limit as the constructor documents it
  (\<open>@param {number} [conf.limit=1]\<close>).
\<close>

datatype limit_field = LAbsent | LNull | LFalse | LEmptyString | LNumber rat

record conf =
  conf_name :: "string option"
  conf_key :: "string option"
  conf_image :: "string option"
  conf_queryParamsToEnv :: "string list option"
  conf_allowFrom :: "allowFrom option"
  conf_cmd :: "string list option"
  conf_createOptions :: "(string \<rightharpoonup> json) option"
  conf_limit :: limit_field

text \<open>
  \<^verbatim>\<open>
  constructor(conf) {
    this._name = conf.name;
    this._key = conf.key;
    this._image = conf.image;
    this._queryParamsToEnv = conf.queryParamsToEnv || [];
    this._allowFrom = conf.allowFrom || ["127.0.0.1", "::1"];
    this._cmd = conf.cmd || [];
    this._createOptions = conf.createOptions || {};
    this._limit = conf.limit || 1;
  }
  \<close>
  \<open>a || b\<close> is \<open>b\<close> when \<open>a\<close> is falsy: absent, \<open>null\<close>, \<open>false\<close>, the empty string or \<open>0\<close>.
  Arrays and objects are truthy, also when empty.
\<close>

definition limit_or_1 :: "limit_field \<Rightarrow> rat" where
  "limit_or_1 l = (case l of LNumber n \<Rightarrow> (if n = 0 then 1 else n) | _ \<Rightarrow> 1)"

definition allowFrom_or_default :: "allowFrom option \<Rightarrow> allowFrom" where
  "allowFrom_or_default a =
     (case a of
        None \<Rightarrow> AddressList [''127.0.0.1'', ''::1'']
      | Some (SingleAddress s) \<Rightarrow>
          (if s = [] then AddressList [''127.0.0.1'', ''::1''] else SingleAddress s)
      | Some (AddressList l) \<Rightarrow> AddressList l)"

definition new_ConfigEntry :: "conf \<Rightarrow> ConfigEntry" where
  "new_ConfigEntry c =
     \<lparr> name_raw = conf_name c,
       key = conf_key c,
       image = conf_image c,
       queryParamsToEnv = (case conf_queryParamsToEnv c of None \<Rightarrow> [] | Some q \<Rightarrow> q),
       allowFrom = allowFrom_or_default (conf_allowFrom c),
       cmd = (case conf_cmd c of None \<Rightarrow> [] | Some l \<Rightarrow> l),
       createOptions = (case conf_createOptions c of None \<Rightarrow> Map.empty | Some m \<Rightarrow> m),
       limit = limit_or_1 (conf_limit c) \<rparr>"

section \<open>Validating the configuration\<close>

text \<open>
  The callback of \<open>configArray.forEach\<close> in \<open>tryValidateConfig\<close>; \<open>!x\<close> holds for an absent
  and for an empty string. The warning logged for a key shorter than 50 characters has no
  effect on the result and is left out.
  \<^verbatim>\<open>
    if (!curr.name) { throw "Missing config name."; }
    if (!curr.key) { throw `Missing key for config '${curr.name}'`; }
    if (curr.key.length < 50) { logger.warn(...); }
    if (!curr.image) { throw `Missing image for config '${curr.name}'`; }
  \<close>
\<close>

definition falsy :: "string option \<Rightarrow> bool" where
  "falsy s = (s = None \<or> s = Some [])"

definition quoted :: "string \<Rightarrow> string" where
  "quoted s = [char_of (39::nat)] @ s @ [char_of (39::nat)]"

definition checkEntry :: "ConfigEntry \<Rightarrow> error + unit" where
  "checkEntry c =
     (case name c of
        Inl e \<Rightarrow> Inl e
      | Inr n \<Rightarrow>
          if n = [] then Inl (Thrown ''Missing config name.'')
          else if falsy (key c) then Inl (Thrown (''Missing key for config '' @ quoted n))
          else if falsy (image c) then Inl (Thrown (''Missing image for config '' @ quoted n))
          else Inr ())"

text \<open>
  \<open>tryValidateConfig\<close> of \<open>src/app.js\<close> (lines 115 to 138). \<open>Array.from(new Set(xs))\<close>
  keeps the first occurrence of each element.
  \<^verbatim>\<open>
    const allNames = configArray.map((curr) => curr.name);
    if (Array.from(new Set(allNames)).length !== allNames.length) {
      throw "Configuration entry names must be unique.";
    }
  \<close>
\<close>

definition tryValidateConfig :: "ConfigEntry list \<Rightarrow> error + unit" where
  "tryValidateConfig configArray =
     (case forEach checkEntry configArray of
        Inl e \<Rightarrow> Inl e
      | Inr _ \<Rightarrow>
          (case mapE name configArray of
             Inl e \<Rightarrow> Inl e
           | Inr allNames \<Rightarrow>
               if length (remdups allNames) \<noteq> length allNames
               then Inl (Thrown ''Configuration entry names must be unique.'')
               else Inr ()))"

text \<open>
  \<open>tryValidateConfig\<close> of the second variant of \<open>app.js\<close> (the one that reads its
  configuration from files and resolves the client address behind proxies), which goes on:
  \<^verbatim>\<open>
    const allKeys = configArray.map((curr) => curr.key);
    if (Array.from(new Set(allKeys)).length !== allKeys.length) {
      throw "Configuration entry keys must be unique.";
    }
  \<close>
\<close>

definition tryValidateConfig_proxy :: "ConfigEntry list \<Rightarrow> error + unit" where
  "tryValidateConfig_proxy configArray =
     (case forEach checkEntry configArray of
        Inl e \<Rightarrow> Inl e
      | Inr _ \<Rightarrow>
          (case mapE name configArray of
             Inl e \<Rightarrow> Inl e
           | Inr allNames \<Rightarrow>
               if length (remdups allNames) \<noteq> length allNames
               then Inl (Thrown ''Configuration entry names must be unique.'')
               else
                 (let allKeys = map key configArray
                  in if length (remdups allKeys) \<noteq> length allKeys
                     then Inl (Thrown ''Configuration entry keys must be unique.'')
                     else Inr ())))"

section \<open>Query parameters as environment entries\<close>

text \<open>
  \<open>decodeURIComponent\<close> is a built-in of the language. A string is modelled by its bytes
  in UTF-8, so the decoder copies every character other than \<open>%\<close>, reads \<open>%XX\<close> as one
  byte, and for a byte with the high bit set reads the continuation escapes that its
  leading ones announce and accepts them when the bytes are well-formed UTF-8. \<open>None\<close> is
  the URIError thrown otherwise.
\<close>

definition hexval :: "char \<Rightarrow> nat option" where
  "hexval c =
     (let n = (of_char c :: nat)
      in if 48 \<le> n \<and> n \<le> 57 then Some (n - 48)
         else if 65 \<le> n \<and> n \<le> 70 then Some (n - 55)
         else if 97 \<le> n \<and> n \<le> 102 then Some (n - 87)
         else None)"

fun pct :: "string \<Rightarrow> (nat \<times> string) option" where
  "pct (p # h # l # rest) =
     (if p = CHR ''%'' then
        (case hexval h of
           None \<Rightarrow> None
         | Some a \<Rightarrow> (case hexval l of None \<Rightarrow> None | Some b \<Rightarrow> Some (16 * a + b, rest)))
      else None)"
| "pct _ = None"

fun pcts :: "nat \<Rightarrow> string \<Rightarrow> (nat list \<times> string) option" where
  "pcts 0 s = Some ([], s)"
| "pcts (Suc k) s =
     (case pct s of
        None \<Rightarrow> None
      | Some (b, r) \<Rightarrow>
          (case pcts k r of None \<Rightarrow> None | Some (bs, r') \<Rightarrow> Some (b # bs, r')))"

definition leading_ones :: "nat \<Rightarrow> nat" where
  "leading_ones b =
     (if b < 128 then 0 else if b < 192 then 1 else if b < 224 then 2
      else if b < 240 then 3 else if b < 248 then 4 else 5)"

definition cont :: "nat \<Rightarrow> bool" where
  "cont b = (128 \<le> b \<and> b \<le> 191)"

fun utf8_valid :: "nat list \<Rightarrow> bool" where
  "utf8_valid [b] = (b < 128)"
| "utf8_valid [b0, b1] = (194 \<le> b0 \<and> b0 \<le> 223 \<and> cont b1)"
| "utf8_valid [b0, b1, b2] =
     (((b0 = 224 \<and> 160 \<le> b1 \<and> b1 \<le> 191)
       \<or> (((225 \<le> b0 \<and> b0 \<le> 236) \<or> (238 \<le> b0 \<and> b0 \<le> 239)) \<and> cont b1)
       \<or> (b0 = 237 \<and> 128 \<le> b1 \<and> b1 \<le> 159))
      \<and> cont b2)"
| "utf8_valid [b0, b1, b2, b3] =
     (((b0 = 240 \<and> 144 \<le> b1 \<and> b1 \<le> 191)
       \<or> (241 \<le> b0 \<and> b0 \<le> 243 \<and> cont b1)
       \<or> (b0 = 244 \<and> 128 \<le> b1 \<and> b1 \<le> 143))
      \<and> cont b2 \<and> cont b3)"
| "utf8_valid _ = False"

function decodeURIComponent :: "string \<Rightarrow> string option" where
  "decodeURIComponent [] = Some []"
| "decodeURIComponent (c # cs) =
     (if c \<noteq> CHR ''%'' then map_option ((#) c) (decodeURIComponent cs)
      else
        (case pct (c # cs) of
           None \<Rightarrow> None
         | Some (b, r) \<Rightarrow>
             if leading_ones b = 1 \<or> leading_ones b > 4 then None
             else
               (case pcts (leading_ones b - 1) r of
                  None \<Rightarrow> None
                | Some (bs, r') \<Rightarrow>
                    if utf8_valid (b # bs)
                    then map_option ((@) (map char_of (b # bs))) (decodeURIComponent r')
                    else None)))"
  by pat_completeness auto
termination
proof (relation "measure length", goal_cases)
  case 1
  show ?case by simp
next
  case (2 c cs)
  show ?case by simp
next
  case (3 c cs x b r y bs r')
  have shorter: "length r0 < length s" if "pct s = Some (b0, r0)" for s b0 r0
    using that by (induction s rule: pct.induct) (auto split: if_splits option.splits)
  have not_longer: "length r0 \<le> length s" if "pcts k s = Some (bs0, r0)" for k s bs0 r0
    using that
  proof (induction k arbitrary: s bs0 r0)
    case 0
    then show ?case by simp
  next
    case (Suc k)
    then show ?case
      by (fastforce split: option.splits dest: shorter)
  qed
  have "length r < length (c # cs)"
    using 3 shorter [of "c # cs" b r] by simp
  moreover have "length r' \<le> length r"
    using 3 not_longer [of "leading_ones b - 1" r bs r'] by simp
  ultimately show ?case by simp
qed

text \<open>
  \<^verbatim>\<open>
  function extractAllowedQueryParams(config, query) {
    return config.queryParamsToEnv
      .filter((key) => key in query)
      .map((key) => `${key}=${decodeURIComponent(query[key])}`);
  }
  \<close>
  The query is the object of the parsed query string. A property is held by the object
  itself (\<open>own\<close>) or inherited through its prototype chain (\<open>proto\<close>); a value is modelled
  by the string that \<open>decodeURIComponent\<close> turns it into. \<open>key in query\<close> holds for own and
  for inherited properties, and \<open>query[key]\<close> reads the own property first. The callback
  of \<open>map\<close> reads \<open>query[key]\<close>, which is \<open>undefined\<close> for a key that is not a property
  and is then turned into the string \<open>undefined\<close>.
\<close>

record queryObject =
  own :: "string \<rightharpoonup> string"
  proto :: "string \<rightharpoonup> string"

definition hasProperty :: "queryObject \<Rightarrow> string \<Rightarrow> bool" where
  "hasProperty query k =
     (case own query k of
        Some _ \<Rightarrow> True
      | None \<Rightarrow> (case proto query k of Some _ \<Rightarrow> True | None \<Rightarrow> False))"

definition getProperty :: "queryObject \<Rightarrow> string \<Rightarrow> string option" where
  "getProperty query k = (case own query k of Some v \<Rightarrow> Some v | None \<Rightarrow> proto query k)"

text \<open>
  The query object that the parser of the web framework builds is an ordinary object: its
  prototype is \<open>Object.prototype\<close>, whose properties are the functions below (as strings,
  the way the runtime prints a built-in function) and the accessor \<open>__proto__\<close>, which
  yields \<open>Object.prototype\<close> itself.
\<close>

definition nativeFunction :: "string \<Rightarrow> string" where
  "nativeFunction f = ''function '' @ f @ ''() { [native code] }''"

definition ObjectPrototype :: "string \<rightharpoonup> string" where
  "ObjectPrototype =
     map_of
       [(''constructor'', nativeFunction ''Object''),
        (''__defineGetter__'', nativeFunction ''__defineGetter__''),
        (''__defineSetter__'', nativeFunction ''__defineSetter__''),
        (''hasOwnProperty'', nativeFunction ''hasOwnProperty''),
        (''__lookupGetter__'', nativeFunction ''__lookupGetter__''),
        (''__lookupSetter__'', nativeFunction ''__lookupSetter__''),
        (''isPrototypeOf'', nativeFunction ''isPrototypeOf''),
        (''propertyIsEnumerable'', nativeFunction ''propertyIsEnumerable''),
        (''toString'', nativeFunction ''toString''),
        (''valueOf'', nativeFunction ''valueOf''),
        (''__proto__'', ''[object Object]''),
        (''toLocaleString'', nativeFunction ''toLocaleString'')]"

definition parsedQuery :: "(string \<rightharpoonup> string) \<Rightarrow> queryObject" where
  "parsedQuery params = \<lparr> own = params, proto = ObjectPrototype \<rparr>"

definition envEntry :: "queryObject \<Rightarrow> string \<Rightarrow> error + string" where
  "envEntry query k =
     (case decodeURIComponent
             (case getProperty query k of None \<Rightarrow> ''undefined'' | Some v \<Rightarrow> v) of
        None \<Rightarrow> Inl URIError
      | Some d \<Rightarrow> Inr (k @ ''='' @ d))"

definition extractAllowedQueryParams ::
  "ConfigEntry \<Rightarrow> queryObject \<Rightarrow> error + string list" where
  "extractAllowedQueryParams config query =
     mapE (envEntry query) (filter (hasProperty query) (queryParamsToEnv config))"

section \<open>The kicker endpoint\<close>

text \<open>
  A request carries the key of its path, the address of the client (\<open>req.ip\<close>, or the
  address resolved behind the trusted proxies in the second variant) and its query.
  The handler is modelled up to the point where it starts the launch and answers: the
  result is the response, and for an accepted request the container-creation options
  of the launch.
\<close>

record request =
  req_key :: string
  req_ip :: string
  req_query :: queryObject

datatype response = BadRequest | Forbidden | Accepted "string \<rightharpoonup> json"

text \<open>
  \<^verbatim>\<open>
  (match.allowFrom && typeof match.allowFrom === "string" && match.allowFrom !== req.ip) ||
  (Array.isArray(match.allowFrom) && !match.allowFrom.some((af) => af === req.ip))
  \<close>
\<close>

definition notAllowed :: "allowFrom \<Rightarrow> string \<Rightarrow> bool" where
  "notAllowed a ip =
     (case a of
        SingleAddress s \<Rightarrow> s \<noteq> [] \<and> s \<noteq> ip
      | AddressList l \<Rightarrow> \<not> list_ex (\<lambda>af. af = ip) l)"

text \<open>
  \<^verbatim>\<open>
  function genNewInstanceName(configEntry) {
    let rootName = configEntry.name;
    let uniq = crypto.randomUUID();
    return `${rootName}_${uniq}`;
  }
  \<close>
  The random UUID is an argument.
\<close>

definition genNewInstanceName :: "string \<Rightarrow> ConfigEntry \<Rightarrow> error + string" where
  "genNewInstanceName uniq configEntry =
     (case name configEntry of Inl e \<Rightarrow> Inl e | Inr rootName \<Rightarrow> Inr (rootName @ ''_'' @ uniq))"

text \<open>
  The handler of \<open>src/app.js\<close> (lines 188 to 255). In an object literal a later property
  replaces an earlier one of the same name, so the properties spread from
  \<open>match.createOptions\<close> win over \<open>name\<close>. The getter \<open>match.name\<close> is first read for the
  log line, where it throws on an absent name.
  \<^verbatim>\<open>
  const match = config.find((e) => e.key === key);
  if (!match) { res.status(400).end(); return; }
  if (...) { res.status(403).end(); return; }
  logger.info("Kicking %s / %s via web request from %s", match.name, match.cmd, req.ip);
  let createOptions = { name: genNewInstanceName(match), ...match.createOptions };
  \<close>
\<close>

definition kick :: "string \<Rightarrow> ConfigEntry list \<Rightarrow> request \<Rightarrow> error + response" where
  "kick uniq config req =
     (case find (\<lambda>e. key e = Some (req_key req)) config of
        None \<Rightarrow> Inr BadRequest
      | Some match \<Rightarrow>
          if notAllowed (allowFrom match) (req_ip req) then Inr Forbidden
          else
            (case genNewInstanceName uniq match of
               Inl e \<Rightarrow> Inl e
             | Inr n \<Rightarrow> Inr (Accepted ([''name'' \<mapsto> JStr n] ++ createOptions match))))"

text \<open>
  The handler of the second variant goes through the allowlisted query parameters
  before it builds the options:
  \<^verbatim>\<open>
  const queryToEnvVars = extractAllowedQueryParams(match, req.query);
  if (queryToEnvVars) {
    let env = [...(match.createOptions?.env ?? []), ...queryToEnvVars];
    if (match.createOptions) { match.createOptions.env = env; }
    else { match.createOptions = { env }; }
  }
  let createOptions = { name: genNewInstanceName(match), ...match.createOptions };
  \<close>
  An array is truthy, so the outer test always holds; \<open>match.createOptions\<close> is the object
  the constructor stored, so the inner test holds as well, and the assignment writes into
  the object held by the entry of the configuration list. The spread of \<open>env\<close> takes the
  elements of an array and the characters of a string, and throws a TypeError on a
  number, a boolean or an object. The model returns the configuration list with the
  response.
\<close>

definition spreadEnv :: "json option \<Rightarrow> error + json list" where
  "spreadEnv v =
     (case v of
        None \<Rightarrow> Inr []
      | Some JNull \<Rightarrow> Inr []
      | Some (JArr xs) \<Rightarrow> Inr xs
      | Some (JStr s) \<Rightarrow> Inr (map (\<lambda>c. JStr [c]) s)
      | Some _ \<Rightarrow> Inl TypeError)"

definition kick_proxy ::
  "string \<Rightarrow> ConfigEntry list \<Rightarrow> request \<Rightarrow> error + (ConfigEntry list \<times> response)" where
  "kick_proxy uniq config req =
     (case List.extract (\<lambda>e. key e = Some (req_key req)) config of
        None \<Rightarrow> Inr (config, BadRequest)
      | Some (before, match, after) \<Rightarrow>
          if notAllowed (allowFrom match) (req_ip req) then Inr (config, Forbidden)
          else
            (case name match of
               Inl e \<Rightarrow> Inl e
             | Inr _ \<Rightarrow>
                 (case extractAllowedQueryParams match (req_query req) of
                    Inl e \<Rightarrow> Inl e
                  | Inr queryToEnvVars \<Rightarrow>
                      (case spreadEnv (createOptions match ''env'') of
                         Inl e \<Rightarrow> Inl e
                       | Inr env0 \<Rightarrow>
                           (let env = env0 @ map JStr queryToEnvVars;
                                match' = match\<lparr>createOptions :=
                                           (createOptions match)(''env'' \<mapsto> JArr env)\<rparr>
                            in case genNewInstanceName uniq match' of
                                 Inl e \<Rightarrow> Inl e
                               | Inr n \<Rightarrow>
                                   Inr (before @ match' # after,
                                        Accepted ([''name'' \<mapsto> JStr n] ++ createOptions match')))))))"

section \<open>Reachable tracker states\<close>

text \<open>
  The states of \<open>runningMap\<close> that calls of \<open>tryTrackNewRunningInstance\<close> and
  \<open>untrackRunningInstance\<close> on entries of the configuration list produce, starting from
  the empty map, with any instance names and in any order.
\<close>

inductive reachable :: "ConfigEntry list \<Rightarrow> runningMap \<Rightarrow> bool" for config where
  reachable_empty: "reachable config Map.empty"
| reachable_track:
    "reachable config rm \<Longrightarrow> c \<in> set config \<Longrightarrow>
     tryTrackNewRunningInstance c i rm = Inr (b, rm') \<Longrightarrow> reachable config rm'"
| reachable_untrack:
    "reachable config rm \<Longrightarrow> c \<in> set config \<Longrightarrow>
     untrackRunningInstance c i rm = Inr rm' \<Longrightarrow> reachable config rm'"

section \<open>Auxiliary definitions for the statements\<close>

text \<open>The identifiers tracked under a name: those of its bucket, none without a bucket.\<close>

definition bucket :: "runningMap \<Rightarrow> string \<Rightarrow> string list" where
  "bucket rm n = (case rm n of None \<Rightarrow> [] | Some b \<Rightarrow> b)"

text \<open>A configuration entry with limit 2, for the concrete instances.\<close>

definition svc :: ConfigEntry where
  "svc = \<lparr> name_raw = Some ''svc'', key = Some ''k1'', image = Some ''img'',
           queryParamsToEnv = [], allowFrom = AddressList [''127.0.0.1'', ''::1''],
           cmd = [], createOptions = Map.empty, limit = 2 \<rparr>"

text \<open>An entry whose limit is not an integer, and an entry that allowlists \<open>toString\<close>.\<close>

definition frac :: ConfigEntry where
  "frac = \<lparr> name_raw = Some ''svc'', key = Some ''k1'', image = Some ''img'',
            queryParamsToEnv = [], allowFrom = AddressList [''127.0.0.1'', ''::1''],
            cmd = [], createOptions = Map.empty, limit = 3 / 2 \<rparr>"

definition tsvc :: ConfigEntry where
  "tsvc = \<lparr> name_raw = Some ''svc'', key = Some ''k1'', image = Some ''img'',
            queryParamsToEnv = [''toString''], allowFrom = AddressList [''127.0.0.1'', ''::1''],
            cmd = [], createOptions = Map.empty, limit = 1 \<rparr>"

text \<open>
  The falsy values of a limit field, and a parsed configuration object whose limit is 0.
\<close>

definition limit_falsy :: "limit_field \<Rightarrow> bool" where
  "limit_falsy l = (case l of LNumber n \<Rightarrow> n = 0 | _ \<Rightarrow> True)"

definition conf0 :: conf where
  "conf0 = \<lparr> conf_name = Some ''svc'', conf_key = Some ''k1'', conf_image = Some ''img'',
             conf_queryParamsToEnv = None, conf_allowFrom = None, conf_cmd = None,
             conf_createOptions = None, conf_limit = LNumber 0 \<rparr>"

text \<open>
  A second entry with the key of \<open>svc\<close> and another name, and the entries that validation
  lets through its per-entry checks: a non-empty name, key and image.
\<close>

definition other :: ConfigEntry where
  "other = \<lparr> name_raw = Some ''other'', key = Some ''k1'', image = Some ''img2'',
             queryParamsToEnv = [], allowFrom = AddressList [''127.0.0.1'', ''::1''],
             cmd = [], createOptions = Map.empty, limit = 1 \<rparr>"

definition well_formed :: "ConfigEntry \<Rightarrow> bool" where
  "well_formed c =
     ((case name_raw c of None \<Rightarrow> False | Some raw \<Rightarrow> raw \<noteq> [])
      \<and> \<not> falsy (key c) \<and> \<not> falsy (image c))"

text \<open>
  An entry that allowlists the query parameter \<open>FOO\<close> and configures one environment
  variable, an entry whose \<open>createOptions\<close> has a \<open>name\<close>, and two requests from the
  loopback address with the key of these entries, with and without a query.
\<close>

definition qsvc :: ConfigEntry where
  "qsvc = \<lparr> name_raw = Some ''svc'', key = Some ''k1'', image = Some ''img'',
            queryParamsToEnv = [''FOO''], allowFrom = AddressList [''127.0.0.1'', ''::1''],
            cmd = [], createOptions = [''env'' \<mapsto> JArr [JStr ''A=1'']], limit = 2 \<rparr>"

definition named :: ConfigEntry where
  "named = \<lparr> name_raw = Some ''svc'', key = Some ''k1'', image = Some ''img'',
             queryParamsToEnv = [], allowFrom = AddressList [''127.0.0.1'', ''::1''],
             cmd = [], createOptions = [''name'' \<mapsto> JStr ''fixed''], limit = 2 \<rparr>"

definition req1 :: request where
  "req1 = \<lparr> req_key = ''k1'', req_ip = ''127.0.0.1'', req_query = parsedQuery [''FOO'' \<mapsto> ''bar''] \<rparr>"

definition req2 :: request where
  "req2 = \<lparr> req_key = ''k1'', req_ip = ''127.0.0.1'', req_query = parsedQuery Map.empty \<rparr>"

text \<open>
  The allowlisted names that are properties of the query object, in the order of the
  allowlist, and the queries in which the value of each of them is one that
  \<open>decodeURIComponent\<close> accepts.
\<close>

definition decodable :: "string list \<Rightarrow> queryObject \<Rightarrow> bool" where
  "decodable allow query =
     (\<forall>k\<in>set allow. case getProperty query k of None \<Rightarrow> True | Some v \<Rightarrow> decodeURIComponent v \<noteq> None)"

definition present :: "string list \<Rightarrow> queryObject \<Rightarrow> string list" where
  "present allow query = filter (hasProperty query) allow"

section \<open>Admission and release\<close>

lemma name_svc: "name svc = Inr ''svc''"
  by (simp add: svc_def name_def alnum_def)

lemma indexOf_absent: "x \<notin> set xs \<Longrightarrow> indexOf xs x = -1"
  by (induction xs) (auto simp: Let_def)

lemma indexOf_present: "x \<in> set xs \<Longrightarrow> indexOf xs x = int (length (takeWhile (\<lambda>y. y \<noteq> x) xs))"
  by (induction xs) (auto simp: Let_def)

lemma splice1_length: "length (splice1 xs k) \<le> length xs"
  by (simp add: splice1_def Let_def)

lemma splice1_present:
  assumes "x \<in> set xs"
  shows "splice1 xs (indexOf xs x) = takeWhile (\<lambda>y. y \<noteq> x) xs"
proof -
  let ?k = "length (takeWhile (\<lambda>y. y \<noteq> x) xs)"
  have "?k \<le> length xs" by (rule length_takeWhile_le)
  then have "splice1 xs (indexOf xs x) = take ?k xs"
    using assms by (simp add: splice1_def Let_def indexOf_present min_def)
  then show ?thesis by (simp add: takeWhile_eq_take [symmetric])
qed

lemma splice1_absent:
  assumes "x \<notin> set xs"
  shows "splice1 xs (indexOf xs x) = butlast xs"
proof -
  have "nat (max (int (length xs) - 1) 0) = length xs - 1" by simp
  then show ?thesis
    using assms by (simp add: splice1_def Let_def indexOf_absent butlast_conv_take)
qed

lemma track_cases:
  assumes "name c = Inr n" and "1 \<le> limit c"
  shows "(of_nat (length (bucket rm n)) < limit c \<longrightarrow>
           tryTrackNewRunningInstance c i rm = Inr (True, rm(n \<mapsto> bucket rm n @ [i])))
       \<and> (limit c \<le> of_nat (length (bucket rm n)) \<longrightarrow>
           tryTrackNewRunningInstance c i rm = Inr (False, rm))"
  using assms by (auto simp: tryTrackNewRunningInstance_def bucket_def split: option.splits)

text \<open>
  What a release does to the bucket of its name: every other bucket is left alone, and
  the bucket loses the identifier with everything behind it, or its last element when
  the identifier is not in it.
\<close>

lemma untrack_bucket:
  assumes "name c = Inr n"
  shows "\<exists>rm'. untrackRunningInstance c i rm = Inr rm'
           \<and> (\<forall>m. m \<noteq> n \<longrightarrow> rm' m = rm m)
           \<and> bucket rm' n =
               (if i \<in> set (bucket rm n) then takeWhile (\<lambda>y. y \<noteq> i) (bucket rm n)
                else butlast (bucket rm n))"
  using assms
  by (auto simp: untrackRunningInstance_def bucket_def splice1_present splice1_absent
           split: option.splits)

text \<open>
  C1. For an entry with a name and a limit of at least 1, an admission attempt returns
  true and appends the identifier when the bucket of the name holds fewer identifiers
  than the limit (a missing bucket is created), and returns false with the tracker
  unchanged when the bucket holds as many as the limit or more. With limit 2 and nothing
  tracked under the name, the first two of three attempts are admitted and the third is
  rejected; after the release of either admitted identifier a fourth attempt is admitted.
\<close>

theorem tryTrack_admission:
  assumes "name c = Inr n" and "1 \<le> limit c"
  shows "(of_nat (length (bucket rm n)) < limit c \<longrightarrow>
            tryTrackNewRunningInstance c i rm = Inr (True, rm(n \<mapsto> bucket rm n @ [i])))
       \<and> (limit c \<le> of_nat (length (bucket rm n)) \<longrightarrow>
            tryTrackNewRunningInstance c i rm = Inr (False, rm))
       \<and> (limit c = 2 \<and> bucket rm n = [] \<longrightarrow>
            tryTrackNewRunningInstance c i1 rm = Inr (True, rm(n \<mapsto> [i1]))
          \<and> tryTrackNewRunningInstance c i2 (rm(n \<mapsto> [i1])) = Inr (True, rm(n \<mapsto> [i1, i2]))
          \<and> tryTrackNewRunningInstance c i3 (rm(n \<mapsto> [i1, i2])) = Inr (False, rm(n \<mapsto> [i1, i2]))
          \<and> (\<forall>r \<in> {i1, i2}. \<exists>rm3 rm4.
                untrackRunningInstance c r (rm(n \<mapsto> [i1, i2])) = Inr rm3
              \<and> tryTrackNewRunningInstance c i4 rm3 = Inr (True, rm4)
              \<and> i4 \<in> set (bucket rm4 n)))"
proof (intro conjI impI)
  show "tryTrackNewRunningInstance c i rm = Inr (True, rm(n \<mapsto> bucket rm n @ [i]))"
    if "of_nat (length (bucket rm n)) < limit c"
    using that assms track_cases by blast
  show "tryTrackNewRunningInstance c i rm = Inr (False, rm)"
    if "limit c \<le> of_nat (length (bucket rm n))"
    using that assms track_cases by blast
next
  assume h: "limit c = 2 \<and> bucket rm n = []"
  show "tryTrackNewRunningInstance c i1 rm = Inr (True, rm(n \<mapsto> [i1]))"
    using h assms track_cases [of c n rm i1] by simp
  show "tryTrackNewRunningInstance c i2 (rm(n \<mapsto> [i1])) = Inr (True, rm(n \<mapsto> [i1, i2]))"
    using h assms track_cases [of c n "rm(n \<mapsto> [i1])" i2] by (simp add: bucket_def)
  show "tryTrackNewRunningInstance c i3 (rm(n \<mapsto> [i1, i2])) = Inr (False, rm(n \<mapsto> [i1, i2]))"
    using h assms track_cases [of c n "rm(n \<mapsto> [i1, i2])" i3] by (simp add: bucket_def)
  show "\<forall>r \<in> {i1, i2}. \<exists>rm3 rm4.
          untrackRunningInstance c r (rm(n \<mapsto> [i1, i2])) = Inr rm3
        \<and> tryTrackNewRunningInstance c i4 rm3 = Inr (True, rm4)
        \<and> i4 \<in> set (bucket rm4 n)"
  proof
    fix r assume r: "r \<in> {i1, i2}"
    obtain rm3 where u: "untrackRunningInstance c r (rm(n \<mapsto> [i1, i2])) = Inr rm3"
      and b: "bucket rm3 n = takeWhile (\<lambda>y. y \<noteq> r) [i1, i2]"
      using untrack_bucket [OF assms(1), of r "rm(n \<mapsto> [i1, i2])"] r
      by (auto simp: bucket_def)
    have "length (bucket rm3 n) < 2"
      using b r by auto
    then have "(of_nat (length (bucket rm3 n)) :: rat) < 2"
      by (simp only: of_nat_less_numeral_iff)
    then have "tryTrackNewRunningInstance c i4 rm3 = Inr (True, rm3(n \<mapsto> bucket rm3 n @ [i4]))"
      using h assms track_cases [of c n rm3 i4] by simp
    moreover have "i4 \<in> set (bucket (rm3(n \<mapsto> bucket rm3 n @ [i4])) n)"
      by (simp add: bucket_def)
    ultimately show "\<exists>rm3 rm4.
          untrackRunningInstance c r (rm(n \<mapsto> [i1, i2])) = Inr rm3
        \<and> tryTrackNewRunningInstance c i4 rm3 = Inr (True, rm4)
        \<and> i4 \<in> set (bucket rm4 n)"
      using u by blast
  qed
qed

theorem tryTrack_admission_witness:
  "name svc = Inr ''svc'' \<and> 1 \<le> limit svc \<and> limit svc = 2
   \<and> tryTrackNewRunningInstance svc ''svc_1'' Map.empty = Inr (True, [''svc'' \<mapsto> [''svc_1'']])
   \<and> tryTrackNewRunningInstance svc ''svc_2'' [''svc'' \<mapsto> [''svc_1'']]
       = Inr (True, [''svc'' \<mapsto> [''svc_1'', ''svc_2'']])
   \<and> tryTrackNewRunningInstance svc ''svc_3'' [''svc'' \<mapsto> [''svc_1'', ''svc_2'']]
       = Inr (False, [''svc'' \<mapsto> [''svc_1'', ''svc_2'']])
   \<and> (\<exists>rm3 rm4.
         untrackRunningInstance svc ''svc_2'' [''svc'' \<mapsto> [''svc_1'', ''svc_2'']] = Inr rm3
       \<and> tryTrackNewRunningInstance svc ''svc_4'' rm3 = Inr (True, rm4)
       \<and> ''svc_4'' \<in> set (bucket rm4 ''svc''))"
proof -
  have n: "name svc = Inr ''svc''" by (rule name_svc)
  have l: "1 \<le> limit svc" by (simp add: svc_def)
  have l2: "limit svc = 2" by (simp add: svc_def)
  have e: "bucket Map.empty ''svc'' = []" by (simp add: bucket_def)
  have f: "limit svc \<le> of_nat (length (bucket [''svc'' \<mapsto> [''svc_1'', ''svc_2'']] ''svc''))"
    by (simp add: svc_def bucket_def)
  note t = tryTrack_admission [OF n l, of Map.empty _ "''svc_1''" "''svc_2''" "''svc_3''" "''svc_4''"]
  note t3 = tryTrack_admission [OF n l, of "[''svc'' \<mapsto> [''svc_1'', ''svc_2'']]" "''svc_3''"]
  show ?thesis
    using n l l2 e f t t3 by simp
qed

lemma track_bucket_length:
  assumes "tryTrackNewRunningInstance c i rm = Inr (b, rm')" and "name c = Inr n" and "1 \<le> limit c"
    and "of_nat (length (bucket rm n)) < limit c + 1"
  shows "of_nat (length (bucket rm' n)) < limit c + 1 \<and> (\<forall>m. m \<noteq> n \<longrightarrow> rm' m = rm m)"
  using assms
  by (auto simp: tryTrackNewRunningInstance_def bucket_def split: option.splits if_splits)

lemma untrack_bucket_length:
  assumes "untrackRunningInstance c i rm = Inr rm'" and "name c = Inr n"
  shows "length (bucket rm' n) \<le> length (bucket rm n) \<and> (\<forall>m. m \<noteq> n \<longrightarrow> rm' m = rm m)"
  using assms
  by (auto simp: untrackRunningInstance_def bucket_def splice1_length split: option.splits if_splits)

lemma bucket_other: "(\<forall>m. m \<noteq> n \<longrightarrow> rm' m = rm m) \<Longrightarrow> k \<noteq> n \<Longrightarrow> bucket rm' k = bucket rm k"
  by (simp add: bucket_def)

lemma reachable_below_limit_plus_one:
  assumes lims: "\<forall>c\<in>set config. 1 \<le> limit c"
    and same: "\<forall>c\<in>set config. \<forall>d\<in>set config. name c = name d \<longrightarrow> limit c = limit d"
    and r: "reachable config rm"
  shows "c \<in> set config \<Longrightarrow> name c = Inr n \<Longrightarrow> of_nat (length (bucket rm n)) < limit c + 1"
  using r
proof (induction arbitrary: c n rule: reachable.induct)
  case reachable_empty
  have "1 \<le> limit c" using lims reachable_empty.prems(1) by blast
  then show ?case by (simp add: bucket_def)
next
  case (reachable_track rm d i b rm')
  have d1: "1 \<le> limit d" using lims reachable_track.hyps(2) by blast
  obtain k where k: "name d = Inr k"
    using reachable_track.hyps(3)
    by (cases "name d") (simp_all add: tryTrackNewRunningInstance_def)
  have oldd: "of_nat (length (bucket rm k)) < limit d + 1"
    using reachable_track.IH [OF reachable_track.hyps(2) k] .
  note tb = track_bucket_length [OF reachable_track.hyps(3) k d1 oldd]
  have old: "of_nat (length (bucket rm n)) < limit c + 1"
    using reachable_track.IH [OF reachable_track.prems] .
  show ?case
  proof (cases "k = n")
    case True
    have "name c = name d" using True k reachable_track.prems(2) by simp
    then have "limit c = limit d"
      using same reachable_track.prems(1) reachable_track.hyps(2) by blast
    then show ?thesis using tb True by simp
  next
    case False
    then have "bucket rm' n = bucket rm n"
      using tb bucket_other [of k rm' rm n] by simp
    then show ?thesis using old by simp
  qed
next
  case (reachable_untrack rm d i rm')
  obtain k where k: "name d = Inr k"
    using reachable_untrack.hyps(3)
    by (cases "name d") (simp_all add: untrackRunningInstance_def)
  note ub = untrack_bucket_length [OF reachable_untrack.hyps(3) k]
  have old: "of_nat (length (bucket rm n)) < limit c + 1"
    using reachable_untrack.IH [OF reachable_untrack.prems] .
  show ?case
  proof (cases "k = n")
    case True
    have "(of_nat (length (bucket rm' n)) :: rat) \<le> of_nat (length (bucket rm n))"
      using ub True by (simp only: of_nat_le_iff)
    then show ?thesis using old by simp
  next
    case False
    then have "bucket rm' n = bucket rm n"
      using ub bucket_other [of k rm' rm n] by simp
    then show ?thesis using old by simp
  qed
qed

lemma below_integer_plus_one:
  assumes "l \<in> \<int>" and "(of_nat k :: rat) < l + 1"
  shows "of_nat k \<le> l"
proof -
  obtain z :: int where z: "l = of_int z" using assms(1) by (rule Ints_cases)
  have "(of_int (int k) :: rat) < of_int (z + 1)" using assms(2) z by simp
  then have "int k < z + 1" by (simp only: of_int_less_iff)
  then have "int k \<le> z" by simp
  then have "(of_int (int k) :: rat) \<le> of_int z" by (simp only: of_int_le_iff)
  then show ?thesis using z by simp
qed

lemma name_frac: "name frac = Inr ''svc''"
  by (simp add: frac_def name_def alnum_def)

text \<open>
  C2, as stated, fails for a limit that is not an integer: the entry \<open>frac\<close> has the
  limit 1.5, which is at least 1, and after two admissions from the empty map two
  identifiers are tracked under its name.
\<close>

theorem tracked_count_exceeds_fractional_limit:
  "1 \<le> limit frac
   \<and> tryTrackNewRunningInstance frac ''svc_1'' Map.empty = Inr (True, [''svc'' \<mapsto> [''svc_1'']])
   \<and> tryTrackNewRunningInstance frac ''svc_2'' [''svc'' \<mapsto> [''svc_1'']]
       = Inr (True, [''svc'' \<mapsto> [''svc_1'', ''svc_2'']])
   \<and> reachable [frac] [''svc'' \<mapsto> [''svc_1'', ''svc_2'']]
   \<and> \<not> of_nat (length (bucket [''svc'' \<mapsto> [''svc_1'', ''svc_2'']] ''svc'')) \<le> limit frac"
proof -
  have l: "limit frac = 3 / 2" by (simp add: frac_def)
  have t1: "tryTrackNewRunningInstance frac ''svc_1'' Map.empty = Inr (True, [''svc'' \<mapsto> [''svc_1'']])"
    by (simp add: tryTrackNewRunningInstance_def name_frac)
  have t2: "tryTrackNewRunningInstance frac ''svc_2'' [''svc'' \<mapsto> [''svc_1'']]
       = Inr (True, [''svc'' \<mapsto> [''svc_1'', ''svc_2'']])"
    by (simp add: tryTrackNewRunningInstance_def name_frac l)
  have r1: "reachable [frac] [''svc'' \<mapsto> [''svc_1'']]"
    by (rule reachable_track [OF reachable_empty _ t1]) simp
  have r2: "reachable [frac] [''svc'' \<mapsto> [''svc_1'', ''svc_2'']]"
    by (rule reachable_track [OF r1 _ t2]) simp
  have n: "\<not> of_nat (length (bucket [''svc'' \<mapsto> [''svc_1'', ''svc_2'']] ''svc'')) \<le> limit frac"
    by (simp add: bucket_def l)
  have o: "1 \<le> limit frac" by (simp add: l)
  show ?thesis using o t1 t2 r2 n by (intro conjI)
qed

text \<open>
  C2, amended. In every tracker state reached from the empty map by admissions and
  releases on the entries of a configuration whose limits are all at least 1, and in
  which entries of the same name have the same limit (names are unique in a validated
  configuration), the number of identifiers tracked under the name of an entry is less
  than its limit plus one, and so at most its limit when the limit is an integer.
\<close>

theorem tracked_count_within_limit:
  assumes "reachable config rm"
    and "\<forall>c\<in>set config. 1 \<le> limit c"
    and "\<forall>c\<in>set config. \<forall>d\<in>set config. name c = name d \<longrightarrow> limit c = limit d"
    and "c \<in> set config" and "name c = Inr n"
  shows "of_nat (length (bucket rm n)) < limit c + 1
       \<and> (limit c \<in> \<int> \<longrightarrow> of_nat (length (bucket rm n)) \<le> limit c)"
proof -
  have b: "of_nat (length (bucket rm n)) < limit c + 1"
    using reachable_below_limit_plus_one [OF assms(2) assms(3) assms(1) assms(4) assms(5)] .
  have "of_nat (length (bucket rm n)) \<le> limit c" if "limit c \<in> \<int>"
    using that b by (rule below_integer_plus_one)
  then show ?thesis using b by blast
qed

theorem tracked_count_within_limit_witness:
  "reachable [svc] [''svc'' \<mapsto> [''svc_1'']] \<and> 1 \<le> limit svc \<and> name svc = Inr ''svc''
   \<and> limit svc \<in> \<int>
   \<and> of_nat (length (bucket [''svc'' \<mapsto> [''svc_1'']] ''svc'')) \<le> limit svc
   \<and> of_nat (length (bucket [''svc'' \<mapsto> [''svc_1'']] ''svc'')) < limit svc + 1"
proof -
  have t: "tryTrackNewRunningInstance svc ''svc_1'' Map.empty = Inr (True, [''svc'' \<mapsto> [''svc_1'']])"
    by (simp add: tryTrackNewRunningInstance_def name_svc)
  have r: "reachable [svc] [''svc'' \<mapsto> [''svc_1'']]"
    by (rule reachable_track [OF reachable_empty _ t]) simp
  have l: "\<forall>c\<in>set [svc]. 1 \<le> limit c" by (simp add: svc_def)
  have u: "\<forall>c\<in>set [svc]. \<forall>d\<in>set [svc]. name c = name d \<longrightarrow> limit c = limit d" by simp
  have m: "svc \<in> set [svc]" by simp
  have i: "limit svc \<in> \<int>" by (simp add: svc_def)
  have o: "1 \<le> limit svc" by (simp add: svc_def)
  note w = tracked_count_within_limit [OF r l u m name_svc]
  have a: "of_nat (length (bucket [''svc'' \<mapsto> [''svc_1'']] ''svc'')) \<le> limit svc"
    using w i by blast
  have b: "of_nat (length (bucket [''svc'' \<mapsto> [''svc_1'']] ''svc'')) < limit svc + 1"
    using w by blast
  show ?thesis using r o name_svc i a b by (intro conjI)
qed

text \<open>
  C3. Releasing an identifier that is tracked removes more than that identifier: with
  \<open>svc_1\<close> and \<open>svc_2\<close> tracked under \<open>svc\<close>, releasing \<open>svc_1\<close> leaves the bucket empty,
  so \<open>svc_2\<close> is no longer tracked.
\<close>

theorem untrack_present_drops_followers:
  "untrackRunningInstance svc ''svc_1'' [''svc'' \<mapsto> [''svc_1'', ''svc_2'']] = Inr [''svc'' \<mapsto> []]"
  by (simp add: untrackRunningInstance_def name_svc splice1_def)

text \<open>
  C4. Releasing an identifier that is not tracked is not a no-op on a bucket that holds
  something: with only \<open>svc_1\<close> tracked under \<open>svc\<close>, releasing \<open>svc_9\<close> removes \<open>svc_1\<close>.
\<close>

theorem untrack_absent_drops_last:
  "untrackRunningInstance svc ''svc_9'' [''svc'' \<mapsto> [''svc_1'']] = Inr [''svc'' \<mapsto> []]"
  by (simp add: untrackRunningInstance_def name_svc splice1_def)

section \<open>The constructor\<close>

text \<open>
  C10. A configuration object whose limit field is 0, absent or another falsy value
  gives an entry of limit 1: from the empty tracker a first instance of the entry is
  admitted and a second one, while the first is tracked, is rejected.
\<close>

theorem falsy_limit_is_one:
  assumes "limit_falsy (conf_limit cf)"
  shows "limit (new_ConfigEntry cf) = 1
       \<and> (\<forall>raw. conf_name cf = Some raw \<longrightarrow>
            tryTrackNewRunningInstance (new_ConfigEntry cf) i1 Map.empty
              = Inr (True, [cleanConfigName raw \<mapsto> [i1]])
          \<and> tryTrackNewRunningInstance (new_ConfigEntry cf) i2 [cleanConfigName raw \<mapsto> [i1]]
              = Inr (False, [cleanConfigName raw \<mapsto> [i1]]))"
proof -
  have l: "limit (new_ConfigEntry cf) = 1"
    using assms
    by (cases "conf_limit cf") (simp_all add: limit_falsy_def new_ConfigEntry_def limit_or_1_def)
  have n: "name (new_ConfigEntry cf) = Inr (cleanConfigName raw)" if "conf_name cf = Some raw" for raw
    using that by (simp add: name_def new_ConfigEntry_def)
  show ?thesis
    using l n by (simp add: tryTrackNewRunningInstance_def)
qed

theorem falsy_limit_is_one_witness:
  "limit_falsy (conf_limit conf0) \<and> limit (new_ConfigEntry conf0) = 1
   \<and> tryTrackNewRunningInstance (new_ConfigEntry conf0) ''svc_1'' Map.empty
       = Inr (True, [''svc'' \<mapsto> [''svc_1'']])
   \<and> tryTrackNewRunningInstance (new_ConfigEntry conf0) ''svc_2'' [''svc'' \<mapsto> [''svc_1'']]
       = Inr (False, [''svc'' \<mapsto> [''svc_1'']])"
proof -
  have f: "limit_falsy (conf_limit conf0)" by (simp add: limit_falsy_def conf0_def)
  have n: "conf_name conf0 = Some ''svc''" by (simp add: conf0_def)
  have c: "cleanConfigName ''svc'' = ''svc''" by (simp add: alnum_def)
  show ?thesis
    using falsy_limit_is_one [OF f, of "''svc_1''" "''svc_2''"] f n c by simp
qed

section \<open>Properties of name cleaning\<close>

lemma dash_not_alnum: "\<not> alnum CHR ''-''"
  by (simp add: alnum_def)

lemma clean_alnum_only: "\<forall>c\<in>set s. alnum c \<Longrightarrow> cleanConfigName s = s"
  by (induction s) simp_all

lemma dropWhile_fixed: "v = [] \<or> alnum (hd v) \<Longrightarrow> dropWhile (\<lambda>x. \<not> alnum x) v = v"
  by (cases v) auto

lemma dropWhile_starts_alnum:
  "dropWhile (\<lambda>x. \<not> alnum x) cs = [] \<or> alnum (hd (dropWhile (\<lambda>x. \<not> alnum x) cs))"
  using hd_dropWhile [of "\<lambda>x. \<not> alnum x" cs] by blast

lemma clean_starts_alnum:
  "v = [] \<or> alnum (hd v) \<Longrightarrow> cleanConfigName v = [] \<or> alnum (hd (cleanConfigName v))"
  by (cases v) auto

lemma clean_idem: "cleanConfigName (cleanConfigName s) = cleanConfigName s"
proof (induction s rule: cleanConfigName.induct)
  case 1
  show ?case by simp
next
  case (2 c cs)
  show ?case
  proof (cases "alnum c")
    case True
    then show ?thesis using 2 by simp
  next
    case False
    let ?d = "dropWhile (\<lambda>x. \<not> alnum x) cs"
    have "cleanConfigName ?d = [] \<or> alnum (hd (cleanConfigName ?d))"
      by (rule clean_starts_alnum [OF dropWhile_starts_alnum])
    then have "dropWhile (\<lambda>x. \<not> alnum x) (cleanConfigName ?d) = cleanConfigName ?d"
      by (rule dropWhile_fixed)
    then show ?thesis
      using False 2(2) by (simp add: dash_not_alnum)
  qed
qed

lemma clean_append:
  "u = [] \<or> alnum (last u) \<Longrightarrow> cleanConfigName (u @ w) = cleanConfigName u @ cleanConfigName w"
proof (induction u rule: cleanConfigName.induct)
  case 1
  show ?case by simp
next
  case (2 c cs)
  show ?case
  proof (cases "alnum c")
    case True
    have "cs = [] \<or> alnum (last cs)" using 2(3) by (auto split: if_splits)
    then show ?thesis using True 2(1) by simp
  next
    case False
    let ?P = "\<lambda>x. \<not> alnum x"
    have ne: "cs \<noteq> []" and la: "alnum (last cs)"
      using 2(3) False by (auto split: if_splits)
    have mem: "last cs \<in> set cs" using ne by (rule last_in_set)
    have npl: "\<not> ?P (last cs)" using la by simp
    have app: "dropWhile ?P (cs @ w) = dropWhile ?P cs @ w"
      using mem npl by (rule dropWhile_append1)
    have "\<not> (\<forall>x\<in>set cs. ?P x)" using mem npl by blast
    then have dne: "dropWhile ?P cs \<noteq> []"
      by (simp only: dropWhile_eq_Nil_conv not_False_eq_True)
    have "last (takeWhile ?P cs @ dropWhile ?P cs) = last (dropWhile ?P cs)"
      using dne by (rule last_appendR)
    then have "last (dropWhile ?P cs) = last cs"
      by (simp only: takeWhile_dropWhile_id)
    then have "cleanConfigName (dropWhile ?P cs @ w)
             = cleanConfigName (dropWhile ?P cs) @ cleanConfigName w"
      using 2(2) [OF False] la by simp
    then show ?thesis using False app by simp
  qed
qed

lemma clean_run:
  assumes "r \<noteq> []" and "\<forall>c\<in>set r. \<not> alnum c" and "v = [] \<or> alnum (hd v)"
  shows "cleanConfigName (r @ v) = ''-'' @ cleanConfigName v"
proof -
  obtain c cs where r: "r = c # cs" using assms(1) by (cases r) auto
  have "dropWhile (\<lambda>x. \<not> alnum x) (cs @ v) = dropWhile (\<lambda>x. \<not> alnum x) v"
    using assms(2) r by (simp add: dropWhile_append2)
  also have "\<dots> = v" using assms(3) by (rule dropWhile_fixed)
  finally show ?thesis using r assms(2) by simp
qed

text \<open>
  C8. \<open>cleanConfigName\<close> is idempotent, and \<open>cleanConfigName("a b_c!d")\<close> is \<open>a-b-c-d\<close>.
  It replaces every maximal run of characters other than ASCII letters and digits by one
  dash: a string of letters and digits is unchanged, and a non-empty run \<open>r\<close> of other
  characters between \<open>u\<close> (empty or ending in a letter or digit) and \<open>v\<close> (empty or
  starting with one) becomes a single dash between the cleaned \<open>u\<close> and the cleaned \<open>v\<close>.
\<close>

theorem cleanConfigName_runs_idempotent:
  "cleanConfigName (cleanConfigName s) = cleanConfigName s
   \<and> cleanConfigName ''a b_c!d'' = ''a-b-c-d''
   \<and> ((\<forall>c\<in>set s. alnum c) \<longrightarrow> cleanConfigName s = s)
   \<and> (r \<noteq> [] \<and> (\<forall>c\<in>set r. \<not> alnum c) \<and> (u = [] \<or> alnum (last u)) \<and> (v = [] \<or> alnum (hd v))
        \<longrightarrow> cleanConfigName (u @ r @ v) = cleanConfigName u @ ''-'' @ cleanConfigName v)"
proof (intro conjI impI)
  show "cleanConfigName (cleanConfigName s) = cleanConfigName s" by (rule clean_idem)
  show "cleanConfigName ''a b_c!d'' = ''a-b-c-d''" by (simp add: alnum_def)
  show "cleanConfigName s = s" if "\<forall>c\<in>set s. alnum c" using that by (rule clean_alnum_only)
  show "cleanConfigName (u @ r @ v) = cleanConfigName u @ ''-'' @ cleanConfigName v"
    if "r \<noteq> [] \<and> (\<forall>c\<in>set r. \<not> alnum c) \<and> (u = [] \<or> alnum (last u)) \<and> (v = [] \<or> alnum (hd v))"
    using that clean_append [of u "r @ v"] clean_run [of r v] by simp
qed

theorem cleanConfigName_runs_idempotent_witness:
  "cleanConfigName (cleanConfigName ''my  svc_1'') = cleanConfigName ''my  svc_1''
   \<and> cleanConfigName ''abc'' = ''abc''
   \<and> cleanConfigName (''my'' @ '' _ '' @ ''svc'') = cleanConfigName ''my'' @ ''-'' @ cleanConfigName ''svc''
   \<and> cleanConfigName ''my _ svc'' = ''my-svc''"
proof -
  have a: "\<forall>c\<in>set ''abc''. alnum c" by (simp add: alnum_def)
  have b: "'' _ '' \<noteq> [] \<and> (\<forall>c\<in>set '' _ ''. \<not> alnum c) \<and> (''my'' = [] \<or> alnum (last ''my''))
           \<and> (''svc'' = [] \<or> alnum (hd ''svc''))"
    by (simp add: alnum_def)
  note t = cleanConfigName_runs_idempotent [of "''my  svc_1''" "'' _ ''" "''my''" "''svc''"]
  note t' = cleanConfigName_runs_idempotent [of "''abc''" "'' _ ''" "''my''" "''svc''"]
  have 1: "cleanConfigName (cleanConfigName ''my  svc_1'') = cleanConfigName ''my  svc_1''"
    using t by (rule conjunct1)
  have 2: "cleanConfigName ''abc'' = ''abc''"
    using t' a by blast
  have 3: "cleanConfigName (''my'' @ '' _ '' @ ''svc'') = cleanConfigName ''my'' @ ''-'' @ cleanConfigName ''svc''"
    using t b by blast
  have 4: "cleanConfigName ''my _ svc'' = ''my-svc''" by (simp add: alnum_def)
  show ?thesis using 1 2 3 4 by (intro conjI)
qed


section \<open>Properties of validation\<close>

text \<open>
  Both variants of \<open>tryValidateConfig\<close> succeed exactly on the lists they are meant to
  accept: every entry has a non-empty name, key and image and the cleaned names are
  distinct; the second variant also wants the keys distinct. An absent name fails with
  the TypeError of the getter, every other violation with the thrown message.
\<close>

lemma clean_empty_iff: "cleanConfigName s = [] \<longleftrightarrow> s = []"
  by (cases s) auto

lemma checkEntry_ok: "checkEntry c = Inr () \<longleftrightarrow> well_formed c"
  by (auto simp: checkEntry_def well_formed_def name_def clean_empty_iff split: option.splits)

lemma forEach_ok: "forEach f xs = Inr () \<longleftrightarrow> (\<forall>x\<in>set xs. f x = Inr ())"
  by (induction xs) (auto split: sum.splits)

lemma forEach_cases: "forEach f xs = Inr () \<or> (\<exists>e. forEach f xs = Inl e)"
  by (cases "forEach f xs") auto

lemma mapE_names:
  "\<forall>c\<in>set cs. well_formed c \<Longrightarrow>
   mapE name cs = Inr (map (\<lambda>c. cleanConfigName (the (name_raw c))) cs)"
  by (induction cs) (auto simp: well_formed_def name_def split: option.splits)

lemma names_distinct:
  assumes "\<forall>c\<in>set cs. well_formed c"
  shows "distinct (map (\<lambda>c. cleanConfigName (the (name_raw c))) cs) \<longleftrightarrow> distinct (map name cs)"
proof -
  have "map name cs = map Inr (map (\<lambda>c. cleanConfigName (the (name_raw c))) cs)"
    using assms by (induction cs) (auto simp: well_formed_def name_def split: option.splits)
  then show ?thesis by (simp add: distinct_map del: map_map)
qed

lemma remdups_length: "length (remdups xs) \<noteq> length xs \<longleftrightarrow> \<not> distinct xs"
  by (simp add: length_remdups_eq)

lemma validate_proxy_ok:
  "tryValidateConfig_proxy cfg = Inr () \<longleftrightarrow>
     (\<forall>c\<in>set cfg. well_formed c) \<and> distinct (map name cfg) \<and> distinct (map key cfg)"
proof (cases "\<forall>c\<in>set cfg. well_formed c")
  case True
  then have f: "forEach checkEntry cfg = Inr ()"
    by (simp add: forEach_ok checkEntry_ok)
  define ns where "ns = map (\<lambda>c. cleanConfigName (the (name_raw c))) cfg"
  have m: "mapE name cfg = Inr ns"
    unfolding ns_def by (rule mapE_names [OF True])
  have d: "distinct ns \<longleftrightarrow> distinct (map name cfg)"
    unfolding ns_def by (rule names_distinct [OF True])
  have l: "length (remdups ns) \<noteq> length ns \<longleftrightarrow> \<not> distinct ns"
    by (rule remdups_length)
  show ?thesis
    using True d by (simp add: tryValidateConfig_proxy_def f m l remdups_length Let_def)
next
  case False
  then have "forEach checkEntry cfg \<noteq> Inr ()"
    by (simp add: forEach_ok checkEntry_ok)
  then obtain e where "forEach checkEntry cfg = Inl e"
    using forEach_cases [of checkEntry cfg] by blast
  then show ?thesis using False by (simp add: tryValidateConfig_proxy_def)
qed

lemma validate_ok:
  "tryValidateConfig cfg = Inr () \<longleftrightarrow> (\<forall>c\<in>set cfg. well_formed c) \<and> distinct (map name cfg)"
proof (cases "\<forall>c\<in>set cfg. well_formed c")
  case True
  then have f: "forEach checkEntry cfg = Inr ()"
    by (simp add: forEach_ok checkEntry_ok)
  define ns where "ns = map (\<lambda>c. cleanConfigName (the (name_raw c))) cfg"
  have m: "mapE name cfg = Inr ns"
    unfolding ns_def by (rule mapE_names [OF True])
  have d: "distinct ns \<longleftrightarrow> distinct (map name cfg)"
    unfolding ns_def by (rule names_distinct [OF True])
  have l: "length (remdups ns) \<noteq> length ns \<longleftrightarrow> \<not> distinct ns"
    by (rule remdups_length)
  show ?thesis
    using True d by (simp add: tryValidateConfig_def f m l remdups_length)
next
  case False
  then have "forEach checkEntry cfg \<noteq> Inr ()"
    by (simp add: forEach_ok checkEntry_ok)
  then obtain e where "forEach checkEntry cfg = Inl e"
    using forEach_cases [of checkEntry cfg] by blast
  then show ?thesis using False by (simp add: tryValidateConfig_def)
qed

lemma validated_same_name_same_limit:
  assumes "tryValidateConfig cfg = Inr ()"
  shows "\<forall>c\<in>set cfg. \<forall>d\<in>set cfg. name c = name d \<longrightarrow> limit c = limit d"
proof -
  have "inj_on name (set cfg)"
    using assms by (simp add: validate_ok distinct_map)
  then show ?thesis by (auto dest: inj_onD)
qed

text \<open>
  C7. \<open>tryValidateConfig\<close> of \<open>src/app.js\<close> accepts a list of two entries with the same key
  and distinct names; the second variant rejects the same list with the message that
  keys must be unique.
\<close>

theorem validate_accepts_duplicate_key:
  "key svc = key other \<and> tryValidateConfig [svc, other] = Inr ()
   \<and> tryValidateConfig_proxy [svc, other] = Inl (Thrown ''Configuration entry keys must be unique.'')"
  by (simp add: tryValidateConfig_def tryValidateConfig_proxy_def checkEntry_def name_def
      falsy_def svc_def other_def alnum_def)


section \<open>Properties of the endpoint\<close>

lemma mapE_Inr: "\<forall>x\<in>set xs. f x = Inr (g x) \<Longrightarrow> mapE f xs = Inr (map g xs)"
  by (induction xs) simp_all

lemma mapE_Inl:
  assumes "\<exists>x\<in>set xs. f x = Inl e" and "\<forall>x\<in>set xs. \<forall>e'. f x = Inl e' \<longrightarrow> e' = e"
  shows "mapE f xs = Inl e"
  using assms
proof (induction xs)
  case Nil
  then show ?case by simp
next
  case (Cons x xs)
  show ?case
  proof (cases "f x")
    case (Inl e')
    then have "e' = e" using Cons.prems(2) by simp
    then show ?thesis using Inl by simp
  next
    case (Inr y)
    then have "\<exists>x\<in>set xs. f x = Inl e" using Cons.prems(1) by auto
    moreover have "\<forall>x\<in>set xs. \<forall>e'. f x = Inl e' \<longrightarrow> e' = e" using Cons.prems(2) by simp
    ultimately have "mapE f xs = Inl e" by (rule Cons.IH)
    then show ?thesis using Inr by simp
  qed
qed

lemma envEntry_cases:
  "envEntry q k =
     (case decodeURIComponent (case getProperty q k of None \<Rightarrow> ''undefined'' | Some v \<Rightarrow> v) of
        None \<Rightarrow> Inl URIError | Some d \<Rightarrow> Inr (k @ ''='' @ d))"
  by (rule envEntry_def)

lemma envEntry_error: "envEntry q k = Inl e \<Longrightarrow> e = URIError"
  unfolding envEntry_cases
  by (cases "decodeURIComponent (case getProperty q k of None \<Rightarrow> ''undefined'' | Some v \<Rightarrow> v)")
    simp_all

lemma envEntry_present:
  "getProperty q k = Some v \<Longrightarrow> decodeURIComponent v = Some d \<Longrightarrow>
   envEntry q k = Inr (k @ ''='' @ d)"
  unfolding envEntry_cases by simp

lemma envEntry_undecodable:
  "getProperty q k = Some v \<Longrightarrow> decodeURIComponent v = None \<Longrightarrow> envEntry q k = Inl URIError"
  unfolding envEntry_cases by simp

lemma hasProperty_get: "hasProperty q k \<longleftrightarrow> getProperty q k \<noteq> None"
  by (cases "own q k"; cases "proto q k") (simp_all add: hasProperty_def getProperty_def)

text \<open>
  What \<open>extractAllowedQueryParams\<close> returns: when the value of every allowlisted property
  of the query object is one that \<open>decodeURIComponent\<close> accepts, the list has, in the
  order of the allowlist, the string \<open>NAME=decodedValue\<close> for each entry of the allowlist
  that is an own or inherited property of the query object; otherwise the call throws a
  URIError.
\<close>

lemma extract_ok:
  assumes "decodable (queryParamsToEnv c) q"
  shows "extractAllowedQueryParams c q
         = Inr (map (\<lambda>k. k @ ''='' @ the (decodeURIComponent (the (getProperty q k))))
                    (present (queryParamsToEnv c) q))"
  unfolding extractAllowedQueryParams_def present_def
proof (rule mapE_Inr, rule ballI)
  fix k assume "k \<in> set (filter (hasProperty q) (queryParamsToEnv c))"
  then have k: "k \<in> set (queryParamsToEnv c)" and "getProperty q k \<noteq> None"
    by (simp_all add: hasProperty_get)
  then obtain v where v: "getProperty q k = Some v" by blast
  have "case getProperty q k of None \<Rightarrow> True | Some v \<Rightarrow> decodeURIComponent v \<noteq> None"
    using assms k unfolding decodable_def by (rule bspec)
  then obtain d where d: "decodeURIComponent v = Some d"
    using v by auto
  show "envEntry q k = Inr (k @ ''='' @ the (decodeURIComponent (the (getProperty q k))))"
    using envEntry_present [of q k v d] v d by simp
qed

lemma extract_error:
  assumes "\<not> decodable (queryParamsToEnv c) q"
  shows "extractAllowedQueryParams c q = Inl URIError"
  unfolding extractAllowedQueryParams_def
proof (rule mapE_Inl)
  have "\<exists>k\<in>set (queryParamsToEnv c).
          \<not> (case getProperty q k of None \<Rightarrow> True | Some v \<Rightarrow> decodeURIComponent v \<noteq> None)"
    using assms unfolding decodable_def by simp
  then obtain k where k: "k \<in> set (queryParamsToEnv c)"
    and n: "\<not> (case getProperty q k of None \<Rightarrow> True | Some v \<Rightarrow> decodeURIComponent v \<noteq> None)"
    by blast
  obtain v where v: "getProperty q k = Some v" and d: "decodeURIComponent v = None"
    using n by (cases "getProperty q k") simp_all
  have "k \<in> set (filter (hasProperty q) (queryParamsToEnv c))"
    using k v by (simp add: hasProperty_get)
  moreover have "envEntry q k = Inl URIError"
    using envEntry_undecodable [of q k v] v d by simp
  ultimately show "\<exists>x\<in>set (filter (hasProperty q) (queryParamsToEnv c)). envEntry q x = Inl URIError"
    by blast
  show "\<forall>x\<in>set (filter (hasProperty q) (queryParamsToEnv c)).
          \<forall>e'. envEntry q x = Inl e' \<longrightarrow> e' = URIError"
    using envEntry_error by blast
qed

text \<open>
  The example of the specification: with \<open>FOO\<close> allowlisted and the query
  \<open>{FOO: "bar", BAZ: "qux"}\<close> the derived list is \<open>["FOO=bar"]\<close>.
\<close>

lemma extract_example:
  "queryParamsToEnv c = [''FOO''] \<Longrightarrow>
   extractAllowedQueryParams c (parsedQuery [''FOO'' \<mapsto> ''bar'', ''BAZ'' \<mapsto> ''qux''])
     = Inr [''FOO=bar'']"
  by (simp add: extractAllowedQueryParams_def envEntry_def hasProperty_def getProperty_def
      parsedQuery_def)

text \<open>
  C9. With \<open>FOO\<close> allowlisted and the query \<open>{FOO: "100%"}\<close>, which the query parser
  builds for \<open>?FOO=100%25\<close>, no list is derived: \<open>extractAllowedQueryParams\<close> throws a
  URIError. With \<open>toString\<close> allowlisted and a request without any query, the derived list
  has an entry for \<open>toString\<close>, a name that \<open>key in query\<close> finds on the prototype of the
  query object.
\<close>

theorem extractAllowedQueryParams_throws_or_inherits:
  "extractAllowedQueryParams qsvc (parsedQuery [''FOO'' \<mapsto> ''100%'']) = Inl URIError
   \<and> extractAllowedQueryParams tsvc (parsedQuery Map.empty)
       = Inr [''toString=function toString() { [native code] }'']"
  by (simp add: extractAllowedQueryParams_def envEntry_def hasProperty_def getProperty_def
      parsedQuery_def ObjectPrototype_def nativeFunction_def qsvc_def tsvc_def)

lemma name_qsvc: "name qsvc = Inr ''svc''"
  by (simp add: qsvc_def name_def alnum_def)

lemma name_named: "name named = Inr ''svc''"
  by (simp add: named_def name_def alnum_def)

text \<open>
  C5. The handler of the second variant writes into the matched entry: after a request
  with the allowlisted parameter \<open>FOO=bar\<close>, the \<open>env\<close> of the entry's \<open>createOptions\<close> in
  the configuration list holds \<open>FOO=bar\<close> behind the configured \<open>A=1\<close>, and a later
  request without any query is launched with \<open>FOO=bar\<close> in its environment.
\<close>

theorem kick_proxy_mutates_config:
  "kick_proxy ''u1'' [qsvc] req1
     = Inr ([qsvc\<lparr>createOptions := [''env'' \<mapsto> JArr [JStr ''A=1'', JStr ''FOO=bar'']]\<rparr>],
            Accepted [''name'' \<mapsto> JStr ''svc_u1'', ''env'' \<mapsto> JArr [JStr ''A=1'', JStr ''FOO=bar'']])
   \<and> kick_proxy ''u2'' [qsvc\<lparr>createOptions := [''env'' \<mapsto> JArr [JStr ''A=1'', JStr ''FOO=bar'']]\<rparr>] req2
     = Inr ([qsvc\<lparr>createOptions := [''env'' \<mapsto> JArr [JStr ''A=1'', JStr ''FOO=bar'']]\<rparr>],
            Accepted [''name'' \<mapsto> JStr ''svc_u2'', ''env'' \<mapsto> JArr [JStr ''A=1'', JStr ''FOO=bar'']])"
  by (simp add: kick_proxy_def List.extract_def notAllowed_def name_def genNewInstanceName_def
      extractAllowedQueryParams_def envEntry_def spreadEnv_def qsvc_def req1_def req2_def alnum_def
      Let_def hasProperty_def getProperty_def parsedQuery_def ObjectPrototype_def)

text \<open>
  C6, as stated, fails for an entry whose \<open>createOptions\<close> has a \<open>name\<close>: the generated
  identifier is \<open>svc_u1\<close>, and the options of the launch carry the configured \<open>fixed\<close>.
\<close>

theorem kick_name_from_createOptions:
  "genNewInstanceName ''u1'' named = Inr ''svc_u1''
   \<and> kick ''u1'' [named] req2 = Inr (Accepted [''name'' \<mapsto> JStr ''fixed''])"
  by (simp add: kick_def notAllowed_def name_def genNewInstanceName_def named_def req2_def alnum_def)

lemma spread_name:
  "([''name'' \<mapsto> JStr n] ++ co) ''name'' = (case co ''name'' of None \<Rightarrow> Some (JStr n) | Some v \<Rightarrow> Some v)"
  by (simp add: map_add_def split: option.splits)

lemma kick_accepted:
  assumes "kick uniq config req = Inr (Accepted opts)"
  shows "\<exists>match raw. find (\<lambda>e. key e = Some (req_key req)) config = Some match
           \<and> name_raw match = Some raw
           \<and> opts = [''name'' \<mapsto> JStr (cleanConfigName raw @ ''_'' @ uniq)] ++ createOptions match"
proof (cases "find (\<lambda>e. key e = Some (req_key req)) config")
  case None
  then show ?thesis using assms by (simp add: kick_def)
next
  case (Some match)
  show ?thesis
  proof (cases "name_raw match")
    case None
    then show ?thesis
      using assms Some by (simp add: kick_def genNewInstanceName_def name_def split: if_splits)
  next
    case (Some raw)
    then show ?thesis
      using assms \<open>find (\<lambda>e. key e = Some (req_key req)) config = Some match\<close>
      by (simp add: kick_def genNewInstanceName_def name_def split: if_splits)
  qed
qed

text \<open>
  C6, amended. In the options built for a launch, \<open>name\<close> is the generated identifier
  (the cleaned name of the matched entry, an underscore and the random suffix) when the
  entry's \<open>createOptions\<close> has no \<open>name\<close>, and the configured \<open>name\<close> when it has one.
\<close>

theorem kick_name:
  assumes "kick uniq config req = Inr (Accepted opts)"
  shows "\<exists>match raw. find (\<lambda>e. key e = Some (req_key req)) config = Some match
           \<and> name_raw match = Some raw
           \<and> opts ''name'' =
               (case createOptions match ''name'' of
                  None \<Rightarrow> Some (JStr (cleanConfigName raw @ ''_'' @ uniq))
                | Some v \<Rightarrow> Some v)"
proof -
  obtain match raw where m: "find (\<lambda>e. key e = Some (req_key req)) config = Some match"
    and r: "name_raw match = Some raw"
    and o: "opts = [''name'' \<mapsto> JStr (cleanConfigName raw @ ''_'' @ uniq)] ++ createOptions match"
    using kick_accepted [OF assms] by blast
  show ?thesis
    using m r unfolding o spread_name by blast
qed

theorem kick_name_witness:
  "kick ''u1'' [svc] req2 = Inr (Accepted [''name'' \<mapsto> JStr ''svc_u1''])
   \<and> (\<exists>match raw. find (\<lambda>e. key e = Some (req_key req2)) [svc] = Some match
           \<and> name_raw match = Some raw
           \<and> [''name'' \<mapsto> JStr ''svc_u1''] ''name'' =
               (case createOptions match ''name'' of
                  None \<Rightarrow> Some (JStr (cleanConfigName raw @ ''_'' @ ''u1''))
                | Some v \<Rightarrow> Some v))"
proof -
  have k: "kick ''u1'' [svc] req2 = Inr (Accepted [''name'' \<mapsto> JStr ''svc_u1''])"
    by (simp add: kick_def notAllowed_def name_def genNewInstanceName_def svc_def req2_def alnum_def)
  show ?thesis
    using kick_name [OF k] k by blast
qed

end
